theory Spec2Isabelle
  imports Complex_Main "HOL-Library.Sublist"
begin

section \<open>CloudTrail records as decoded JSON\<close>

text \<open>
  \<^verbatim>\<open>CloudTrailFile.Records\<close> is a \<^verbatim>\<open>[]map[string]interface{}\<close> filled by
  \<^verbatim>\<open>json.Unmarshal\<close>. A value held in an \<^verbatim>\<open>interface{}\<close> is then one of: nil
  (JSON null), a bool, a float64, a string, a slice or a nested map. The numeric value is
  never inspected by the program, so it is carried as a rational.
\<close>

datatype jvalue =
    JNull
  | JBool bool
  | JNum rat
  | JStr string
  | JArr "jvalue list"
  | JObj "(string \<times> jvalue) list"

type_synonym jobject = "(string \<times> jvalue) list"

text \<open>
  \<^verbatim>\<open>m[k]\<close> on a Go map: the stored value, or the zero value (a nil interface) when the
  key is absent. A nil map reads like an empty one.
\<close>

definition index :: "jobject \<Rightarrow> string \<Rightarrow> jvalue" where
  "index m k = (case map_of m k of None \<Rightarrow> JNull | Some v \<Rightarrow> v)"

text \<open>
  \<^verbatim>\<open>userIdentity, _ := record["userIdentity"].(map[string]interface{})\<close>: the two-value
  assertion never panics; on failure it yields the nil map.
\<close>

definition asMap :: "jvalue \<Rightarrow> jobject" where
  "asMap v = (case v of JObj m \<Rightarrow> m | _ \<Rightarrow> [])"

section \<open>The string functions of the Go library that the filter calls\<close>

definition HasPrefix :: "string \<Rightarrow> string \<Rightarrow> bool" where
  "HasPrefix s p = prefix p s"

definition HasSuffix :: "string \<Rightarrow> string \<Rightarrow> bool" where
  "HasSuffix s x = suffix x s"

definition Contains :: "string \<Rightarrow> string \<Rightarrow> bool" where
  "Contains s sub = sublist sub s"

text \<open>
  \<^verbatim>\<open>strings.Split(s, ":")\<close> for a one-character separator: the pieces between the
  separators, in order; a string without separator is the single piece.
\<close>

fun Split :: "string \<Rightarrow> char \<Rightarrow> string list" where
  "Split [] sep = [[]]"
| "Split (c # cs) sep =
     (if c = sep then [] # Split cs sep
      else (case Split cs sep of
              [] \<Rightarrow> [[c]]
            | w # ws \<Rightarrow> (c # w) # ws))"

text \<open>
  \<^verbatim>\<open>strings.Title\<close>: every letter that begins a word is mapped to its title case, a
  word beginning after a separator and at the start of the string (\<^verbatim>\<open>prev := ' '\<close>).
  \<^verbatim>\<open>isSeparator\<close> is false for ASCII letters, digits and the underscore and true for
  every other ASCII character. The model is exact on ASCII text; characters above 127
  are left unchanged and do not separate words.
\<close>

definition ToTitle :: "char \<Rightarrow> char" where
  "ToTitle c =
     (case map_of (zip ''abcdefghijklmnopqrstuvwxyz'' ''ABCDEFGHIJKLMNOPQRSTUVWXYZ'') c of
        Some u \<Rightarrow> u
      | None \<Rightarrow> c)"

definition isSeparator :: "char \<Rightarrow> bool" where
  "isSeparator c =
     (if (of_char c :: nat) \<le> 127
      then c \<notin> set ''0123456789abcdefghijklmnopqrstuvwxyzABCDEFGHIJKLMNOPQRSTUVWXYZ_''
      else False)"

fun titleFrom :: "char \<Rightarrow> string \<Rightarrow> string" where
  "titleFrom prev [] = []"
| "titleFrom prev (c # cs) = (if isSeparator prev then ToTitle c else c) # titleFrom c cs"

definition Title :: "string \<Rightarrow> string" where
  "Title s = titleFrom (CHR '' '') s"

subsection \<open>Regular expressions\<close>

text \<open>
  \<^verbatim>\<open>matchString(m, s)\<close> is \<^verbatim>\<open>regexp.MatchString(m, s)\<close> with the error dropped: whether
  \<^verbatim>\<open>s\<close> contains any match of \<^verbatim>\<open>m\<close>. The three patterns of the program use literal
  characters, the dot and a star after a single character, and nothing else; the model
  covers that fragment. With Go's default flags the dot matches any character but the
  newline. A character is one \<open>char\<close> here, which is exact on ASCII text.
\<close>

datatype atom = Lit char | AnyCharNotNL

datatype piece = One atom | Star atom

definition atomOf :: "char \<Rightarrow> atom" where
  "atomOf c = (if c = CHR ''.'' then AnyCharNotNL else Lit c)"

fun compile :: "string \<Rightarrow> piece list" where
  "compile [] = []"
| "compile [c] = [One (atomOf c)]"
| "compile (c # d # rest) =
     (if d = CHR ''*'' then Star (atomOf c) # compile rest
      else One (atomOf c) # compile (d # rest))"

fun accepts :: "atom \<Rightarrow> char \<Rightarrow> bool" where
  "accepts (Lit a) c = (c = a)"
| "accepts AnyCharNotNL c = (c \<noteq> CHR 0x0A)"

fun matchHere :: "piece list \<Rightarrow> string \<Rightarrow> bool" where
  "matchHere [] s = True"
| "matchHere (One a # p) [] = False"
| "matchHere (One a # p) (c # s) = (accepts a c \<and> matchHere p s)"
| "matchHere (Star a # p) [] = matchHere p []"
| "matchHere (Star a # p) (c # s) =
     (matchHere p (c # s) \<or> (accepts a c \<and> matchHere (Star a # p) s))"

fun matchAnywhere :: "piece list \<Rightarrow> string \<Rightarrow> bool" where
  "matchAnywhere p [] = matchHere p []"
| "matchAnywhere p (c # s) = (matchHere p (c # s) \<or> matchAnywhere p s)"

definition matchString :: "string \<Rightarrow> string \<Rightarrow> bool" where
  "matchString m s = matchAnywhere (compile m) s"

section \<open>The body of the loop in FilterRecords\<close>

text \<open>
  Where control goes after a part of the loop body: \<open>Continue\<close> is the \<^verbatim>\<open>continue\<close>
  statement (the record is dropped: the verdict Suppress), \<open>Next\<close> is control reaching
  the statement that follows, \<open>Panic\<close> is a run-time panic of a failed one-value type
  assertion.
\<close>

datatype flow = Continue | Next | Panic

text \<open>Lines 63 to 154: the cases of the switch on the event name, in source order.\<close>

definition eventNameSwitch :: "jobject \<Rightarrow> jobject \<Rightarrow> string \<Rightarrow> flow" where
  "eventNameSwitch r userIdentity en =
    (if HasPrefix (Title en) ''Get'' then Continue
     else if HasPrefix (Title en) ''List'' then Continue
     else if HasPrefix (Title en) ''View'' then Continue
     else if HasPrefix en ''Head'' then Continue
     else if HasPrefix en ''Describe'' then Continue
     else if HasPrefix en ''Test'' then Continue
     else if HasPrefix en ''Download'' then Continue
     else if HasPrefix en ''Report'' then Continue
     else if HasPrefix en ''Poll'' then Continue
     else if HasPrefix en ''Verify'' then Continue
     else if HasPrefix en ''Skip'' then Continue
     else if HasPrefix en ''Count'' then Continue
     else if HasPrefix en ''Detect'' then Continue
     else if HasPrefix en ''Lookup'' then Continue
     else if en = ''ConsoleLogin'' then Continue
     else if HasSuffix en ''VirtualMFADevice'' then Continue
     else if en = ''CheckMfa'' then Continue
     else if en = ''CheckDomainAvailability'' then Continue
     else if en = ''Decrypt'' then Continue
     else if en = ''SetTaskStatus'' then Continue
     else if en = ''BatchGetQueryExecution'' then Continue
     else if en = ''QueryObjects'' then Continue
     else if HasPrefix en ''StartQuery'' then Continue
     else if HasPrefix en ''StopQuery'' then Continue
     else if HasPrefix en ''CancelQuery'' then Continue
     else if HasPrefix en ''BatchGet'' then Continue
     else if HasPrefix en ''Search'' then Continue
     else if en = ''GenerateServiceLastAccessedDetails'' then Continue
     else if en = ''REST.GET.OBJECT_LOCK_CONFIGURATION'' then Continue
     else if en = ''AssumeRoleWithWebIdentity'' then Continue
     else if en = ''PutQueryDefinition'' then
       (if index r ''eventSource'' = JStr ''logs.amazonaws.com'' then Continue else Next)
     else if en = ''PutObject'' then
       (case index r ''requestParameters'' of
          JObj rps \<Rightarrow>
            (case index rps ''key'' of
               JStr k \<Rightarrow> if HasPrefix k ''elb/AWSLogs'' then Continue else Next
             | _ \<Rightarrow> Next)
        | _ \<Rightarrow> Next)
     else if en = ''AssumeRole'' then
       (if index r ''userAgent'' = JStr ''Coral/Netty4'' then
          (if index userIdentity ''invokedBy'' \<in>
                {JStr ''ecs-tasks.amazonaws.com'', JStr ''ec2.amazonaws.com'',
                 JStr ''monitoring.rds.amazonaws.com'', JStr ''lambda.amazonaws.com''}
           then Continue else Next)
        else Next)
     else Next)"

text \<open>
  Line 60: \<^verbatim>\<open>switch en := record["eventName"].(string); { ... }\<close>. The assertion is the
  one-value form, which panics when the value is not a string (a missing key reads as
  nil, which is not a string either).
\<close>

definition stageB :: "jobject \<Rightarrow> jobject \<Rightarrow> flow" where
  "stageB r userIdentity =
     (case index r ''eventName'' of
        JStr en \<Rightarrow> eventNameSwitch r userIdentity en
      | _ \<Rightarrow> Panic)"

text \<open>Lines 157 to 184: the cases of the switch on the user agent, in source order.\<close>

definition userAgentSwitch :: "string \<Rightarrow> flow" where
  "userAgentSwitch ua =
    (if ua = ''console.amazonaws.com'' then Next
     else if ua = ''signin.amazonaws.com'' then Next
     else if ua = ''Coral/Jakarta'' then Next
     else if ua = ''Coral/Netty4'' then Next
     else if ua = ''AWS CloudWatch Console'' then Next
     else if HasPrefix ua ''AWS Signin'' then Next
     else if HasPrefix ua ''S3Console/'' then Next
     else if HasPrefix ua ''[S3Console'' then Next
     else if HasPrefix ua ''Mozilla/'' then Next
     else if matchString ''console.*.amazonaws.com'' ua then Next
     else if matchString ''signin.*.amazonaws.com'' ua then Next
     else if matchString ''aws-internal*'' ua then Next
     else Continue)"

text \<open>
  Line 156: \<^verbatim>\<open>if usa, ok := record["userAgent"]; ok\<close> tests the presence of the key,
  whatever its value; line 157 then asserts the value to be a string, in the one-value
  form.
\<close>

definition stageC :: "jobject \<Rightarrow> flow" where
  "stageC r =
     (case map_of r ''userAgent'' of
        None \<Rightarrow> Next
      | Some usa \<Rightarrow> (case usa of JStr ua \<Rightarrow> userAgentSwitch ua | _ \<Rightarrow> Panic))"

text \<open>
  Lines 54 to 185 for one record: \<open>Continue\<close> when the record is dropped, \<open>Next\<close> when
  control reaches line 187 (the record is logged and notified).
\<close>

definition classify :: "jobject \<Rightarrow> flow" where
  "classify r =
     (let userIdentity = asMap (index r ''userIdentity'') in
      if index userIdentity ''invokedBy'' = JStr ''AWS Internal'' then Continue
      else (case stageB r userIdentity of
              Continue \<Rightarrow> Continue
            | Panic \<Rightarrow> Panic
            | Next \<Rightarrow> stageC r))"

section \<open>Logging and notification\<close>

text \<open>
  \<^verbatim>\<open>fmt.Sprintf("%s", v)\<close> for a value held in an interface: a string prints as
  itself, nil and bool are reported as bad operands of the verb. The text printed for a
  number, a slice or a map depends on float formatting and on the order of map keys; it
  is the parameter \<open>fmtv\<close>.
\<close>

definition Sprintf_s :: "(jvalue \<Rightarrow> string) \<Rightarrow> jvalue \<Rightarrow> string" where
  "Sprintf_s fmtv v =
     (case v of
        JStr s \<Rightarrow> s
      | JNull \<Rightarrow> ''%!s(<nil>)''
      | JBool b \<Rightarrow> (if b then ''%!s(bool=true)'' else ''%!s(bool=false)'')
      | _ \<Rightarrow> fmtv v)"

text \<open>
  Lines 187 to 193. \<^verbatim>\<open>strings.Split(userName, ":")[1]\<close> is evaluated only when the
  string contains the separator, so the index is in range (lemma \<open>Split_second\<close>
  below).
\<close>

definition userNameOf :: "(jvalue \<Rightarrow> string) \<Rightarrow> jobject \<Rightarrow> string" where
  "userNameOf fmtv userIdentity =
     (let userName = Sprintf_s fmtv (index userIdentity ''principalId'');
          userName = (if Contains userName '':'' then Split userName (CHR '':'') ! 1
                      else userName)
      in if index userIdentity ''userName'' \<noteq> JNull
         then Sprintf_s fmtv (index userIdentity ''userName'')
         else userName)"

text \<open>The part of \<^verbatim>\<open>events.S3EventRecord\<close> that the program reads.\<close>

record s3event =
  AWSRegion :: string
  BucketName :: string
  ObjectKey :: string

text \<open>The fields of the entry logged at line 195.\<close>

record log_entry =
  user_agent :: jvalue
  event_time :: jvalue
  principal :: jvalue
  user_name :: string
  event_source :: jvalue
  event_name :: jvalue
  account_id :: jvalue
  event_id :: jvalue
  s3_uri :: string

text \<open>
  The eight arguments substituted into the fixed Slack template at lines 208 to 249, in
  order.
\<close>

record slack_body =
  sb_channel :: string
  sb_event_name :: string
  sb_event_source :: string
  sb_account :: string
  sb_user_name :: string
  sb_region :: string
  sb_event_id :: string
  sb_event_time :: string

text \<open>
  What the program does to the outside, in order: an entry written to the log at level
  Info, a POST to the Slack webhook, a GetObject request to S3. Lines logged at level
  Debug are left out: the logger keeps its default level.
\<close>

datatype effect =
    Log log_entry
  | Post string slack_body
  | Fetch string string

type_synonym env = "string \<Rightarrow> string option"

definition Getenv :: "env \<Rightarrow> string \<Rightarrow> string" where
  "Getenv e key = (case e key of None \<Rightarrow> [] | Some v \<Rightarrow> v)"

definition getEnv :: "env \<Rightarrow> string \<Rightarrow> string \<Rightarrow> string" where
  "getEnv e key fallback =
     (case e key of
        Some v \<Rightarrow> (if v = [] then fallback else v)
      | None \<Rightarrow> fallback)"

definition logEntry :: "(jvalue \<Rightarrow> string) \<Rightarrow> s3event \<Rightarrow> jobject \<Rightarrow> log_entry" where
  "logEntry fmtv evt r =
     (let userIdentity = asMap (index r ''userIdentity'') in
      \<lparr> user_agent = index r ''userAgent'',
        event_time = index r ''eventTime'',
        principal = index userIdentity ''principalId'',
        user_name = userNameOf fmtv userIdentity,
        event_source = index r ''eventSource'',
        event_name = index r ''eventName'',
        account_id = index userIdentity ''accountId'',
        event_id = index r ''eventID'',
        s3_uri = ''s3://'' @ BucketName evt @ ''/'' @ ObjectKey evt \<rparr>)"

definition slackBody :: "(jvalue \<Rightarrow> string) \<Rightarrow> env \<Rightarrow> jobject \<Rightarrow> slack_body" where
  "slackBody fmtv e r =
     (let userIdentity = asMap (index r ''userIdentity'') in
      \<lparr> sb_channel = Getenv e ''SLACK_CHANNEL'',
        sb_event_name = Sprintf_s fmtv (index r ''eventName''),
        sb_event_source = Sprintf_s fmtv (index r ''eventSource''),
        sb_account =
          getEnv e (''SLACK_NAME_'' @ Sprintf_s fmtv (index userIdentity ''accountId''))
            (getEnv e ''SLACK_NAME'' (Sprintf_s fmtv (index userIdentity ''accountId''))),
        sb_user_name = userNameOf fmtv userIdentity,
        sb_region = Sprintf_s fmtv (index r ''awsRegion''),
        sb_event_id = Sprintf_s fmtv (index r ''eventID''),
        sb_event_time = Sprintf_s fmtv (index r ''eventTime'') \<rparr>)"

text \<open>
  Lines 187 to 256, for a record that was not dropped. A failed delivery is only logged
  at level Debug, so it leaves no trace here.
\<close>

definition notify :: "(jvalue \<Rightarrow> string) \<Rightarrow> env \<Rightarrow> s3event \<Rightarrow> jobject \<Rightarrow> effect list" where
  "notify fmtv e evt r =
     Log (logEntry fmtv evt r) #
     (case e ''SLACK_WEBHOOK'' of
        None \<Rightarrow> []
      | Some webhookUrl \<Rightarrow> [Post webhookUrl (slackBody fmtv e r)])"

text \<open>
  How a call ends: it returns an error value (\<open>None\<close> is Go's nil), or a panic unwinds
  it.
\<close>

datatype status = Returned "string option" | Panicked

text \<open>
  \<^verbatim>\<open>FilterRecords\<close>: the loop over the records, with the effects it has had when it
  ends. A panic ends the loop; the records after it are not looked at.
\<close>

fun FilterRecords ::
  "(jvalue \<Rightarrow> string) \<Rightarrow> env \<Rightarrow> s3event \<Rightarrow> jobject list \<Rightarrow> effect list \<times> status" where
  "FilterRecords fmtv e evt [] = ([], Returned None)"
| "FilterRecords fmtv e evt (r # rs) =
     (case classify r of
        Panic \<Rightarrow> ([], Panicked)
      | Continue \<Rightarrow> FilterRecords fmtv e evt rs
      | Next \<Rightarrow>
          (case FilterRecords fmtv e evt rs of
             (fx, st) \<Rightarrow> (notify fmtv e evt r @ fx, st)))"

section \<open>Fetching and reading a log file\<close>

text \<open>
  The S3 client is a parameter: \<open>GetObject bucket key\<close> gives the object or an error,
  which is an \<^verbatim>\<open>awserr.Error\<close> or another one; each carries its printed text.
\<close>

datatype get_error = AwsError string | OtherError string

record s3object =
  ContentType :: "string option"
  Body :: string

definition fetchLogFromS3 ::
  "(string \<Rightarrow> string \<Rightarrow> get_error + s3object) \<Rightarrow> string \<Rightarrow> string \<Rightarrow>
   effect list \<times> (string + s3object option)" where
  "fetchLogFromS3 GetObject s3Bucket s3Object =
     (if Contains s3Object ''/CloudTrail-Digest/'' \<or> Contains s3Object ''/Config/''
      then ([], Inr None)
      else ([Fetch s3Bucket s3Object],
            (case GetObject s3Bucket s3Object of
               Inl (AwsError aerr) \<Rightarrow> Inl (''AWS Error: '' @ aerr)
             | Inl (OtherError err) \<Rightarrow> Inl (''Error getting S3 Object: '' @ err)
             | Inr obj \<Rightarrow> Inr (Some obj))))"

text \<open>
  \<^verbatim>\<open>readLogFile\<close>. The gzip reader and the JSON decoder are parameters. \<open>gunzip\<close> fails
  either on the header (in \<^verbatim>\<open>gzip.NewReader\<close>) or later, while the stream is read; the
  body of the object is taken as already received.
\<close>

datatype gzip_error = HeaderError string | StreamError string

definition readLogFile ::
  "(string \<Rightarrow> gzip_error + string) \<Rightarrow> (string \<Rightarrow> string + jobject list) \<Rightarrow> s3object \<Rightarrow>
   string + jobject list" where
  "readLogFile gunzip unmarshal object =
     (let blob =
            (if ContentType object = Some ''application/x-gzip''
             then (case gunzip (Body object) of
                     Inl (HeaderError err) \<Rightarrow> Inl (''extracting json.gz file: '' @ err)
                   | Inl (StreamError err) \<Rightarrow> Inl (''Error reading from logFileBlob: '' @ err)
                   | Inr bytes \<Rightarrow> Inr bytes)
             else Inr (Body object))
      in case blob of
           Inl err \<Rightarrow> Inl err
         | Inr bytes \<Rightarrow>
             (case unmarshal bytes of
                Inl err \<Rightarrow> Inl (''unmarshalling s3 object to CloudTrailFile: '' @ err)
              | Inr logFile \<Rightarrow> Inr logFile))"

text \<open>\<^verbatim>\<open>Stream\<close>: one S3 event record, from the fetch to the last notification.\<close>

definition Stream ::
  "(string \<Rightarrow> string \<Rightarrow> get_error + s3object) \<Rightarrow> (string \<Rightarrow> gzip_error + string) \<Rightarrow>
   (string \<Rightarrow> string + jobject list) \<Rightarrow> (jvalue \<Rightarrow> string) \<Rightarrow> env \<Rightarrow> s3event \<Rightarrow>
   effect list \<times> status" where
  "Stream GetObject gunzip unmarshal fmtv e evt =
     (let s3Bucket = BucketName evt; s3Object = ObjectKey evt in
      case fetchLogFromS3 GetObject s3Bucket s3Object of
        (fx, Inl err) \<Rightarrow> (fx, Returned (Some (s3Object @ '': '' @ err)))
      | (fx, Inr None) \<Rightarrow> (fx, Returned None)
      | (fx, Inr (Some obj)) \<Rightarrow>
          (case readLogFile gunzip unmarshal obj of
             Inl err \<Rightarrow> (fx, Returned (Some (s3Object @ '': '' @ err)))
           | Inr logFile \<Rightarrow>
               (case FilterRecords fmtv e evt logFile of
                  (fx', Returned (Some err)) \<Rightarrow>
                    (fx @ fx', Returned (Some (s3Object @ '': '' @ err)))
                | (fx', st) \<Rightarrow> (fx @ fx', st))))"

section \<open>Notions used to state the properties\<close>

text \<open>The entries of the trace that are log entries.\<close>

fun isLog :: "effect \<Rightarrow> bool" where
  "isLog (Log entry) = True"
| "isLog (Post url body) = False"
| "isLog (Fetch bucket key) = False"

text \<open>
  The prefixes that the switch on the event name tests on the name as it is written,
  without \<^verbatim>\<open>strings.Title\<close>.
\<close>

definition exactCasePrefixes :: "string list" where
  "exactCasePrefixes =
     [''Head'', ''Describe'', ''Test'', ''Download'', ''Report'', ''Poll'', ''Verify'',
      ''Skip'', ''Count'', ''Detect'', ''Lookup'', ''StartQuery'', ''StopQuery'',
      ''CancelQuery'', ''BatchGet'', ''Search'']"

text \<open>
  The allow-list of the switch on the user agent as a table: five exact strings, four
  prefixes and three regular expressions.
\<close>

definition allowListed :: "string \<Rightarrow> bool" where
  "allowListed ua =
     (ua \<in> set [''console.amazonaws.com'', ''signin.amazonaws.com'', ''Coral/Jakarta'',
                ''Coral/Netty4'', ''AWS CloudWatch Console''] \<or>
      list_ex (HasPrefix ua) [''AWS Signin'', ''S3Console/'', ''[S3Console'', ''Mozilla/''] \<or>
      list_ex (\<lambda>m. matchString m ua)
        [''console.*.amazonaws.com'', ''signin.*.amazonaws.com'', ''aws-internal*''])"

text \<open>
  The part of a string after its first colon, and the piece between its first and its
  second colon (up to the end when there is no second one).
\<close>

definition afterFirstColon :: "string \<Rightarrow> string" where
  "afterFirstColon s = tl (dropWhile (\<lambda>c. c \<noteq> CHR '':'') s)"

definition secondPiece :: "string \<Rightarrow> string" where
  "secondPiece s = takeWhile (\<lambda>c. c \<noteq> CHR '':'') (afterFirstColon s)"

section \<open>Facts about the library functions\<close>

subsection \<open>Contains, Split and the matcher\<close>

lemma Contains_char: "Contains s [x] \<longleftrightarrow> x \<in> set s"
  unfolding Contains_def by (induction s) (auto simp: sublist_code)

lemma Split_unfold:
  "Split s sep =
     takeWhile (\<lambda>c. c \<noteq> sep) s #
     (if sep \<in> set s then Split (tl (dropWhile (\<lambda>c. c \<noteq> sep) s)) sep else [])"
  by (induction s) (auto split: list.splits)

lemma Split_second:
  assumes "sep \<in> set s"
  shows "1 < length (Split s sep)"
    and "Split s sep ! 1 = takeWhile (\<lambda>c. c \<noteq> sep) (tl (dropWhile (\<lambda>c. c \<noteq> sep) s))"
proof -
  let ?rest = "tl (dropWhile (\<lambda>c. c \<noteq> sep) s)"
  have a: "Split s sep = takeWhile (\<lambda>c. c \<noteq> sep) s # Split ?rest sep"
    using assms Split_unfold [of s sep] by simp
  obtain w ws where b: "Split ?rest sep = w # ws" and c: "w = takeWhile (\<lambda>c. c \<noteq> sep) ?rest"
    using Split_unfold [of ?rest sep] by blast
  show "1 < length (Split s sep)" by (simp add: a b)
  show "Split s sep ! 1 = takeWhile (\<lambda>c. c \<noteq> sep) ?rest" by (simp add: a b c)
qed

lemma matchHere_One:
  "matchHere (One a # p) s \<longleftrightarrow> (\<exists>c t. s = c # t \<and> accepts a c \<and> matchHere p t)"
  by (cases s) auto

lemma matchHere_Star:
  "matchHere (Star a # p) s \<longleftrightarrow>
     (\<exists>u t. s = u @ t \<and> list_all (accepts a) u \<and> matchHere p t)"
proof (induction s)
  case Nil
  then show ?case by simp
next
  case (Cons c s)
  show ?case
  proof
    assume "matchHere (Star a # p) (c # s)"
    then consider "matchHere p (c # s)" | "accepts a c" "matchHere (Star a # p) s"
      by auto
    then show "\<exists>u t. c # s = u @ t \<and> list_all (accepts a) u \<and> matchHere p t"
    proof cases
      case 1
      then have "c # s = [] @ (c # s) \<and> list_all (accepts a) [] \<and> matchHere p (c # s)"
        by simp
      then show ?thesis by blast
    next
      case 2
      with Cons.IH obtain u t where "s = u @ t" "list_all (accepts a) u" "matchHere p t"
        by blast
      with 2 have "c # s = (c # u) @ t \<and> list_all (accepts a) (c # u) \<and> matchHere p t"
        by simp
      then show ?thesis by blast
    qed
  next
    assume "\<exists>u t. c # s = u @ t \<and> list_all (accepts a) u \<and> matchHere p t"
    then obtain u t where ut: "c # s = u @ t" "list_all (accepts a) u" "matchHere p t"
      by blast
    show "matchHere (Star a # p) (c # s)"
    proof (cases u)
      case Nil
      with ut have "matchHere p (c # s)" by simp
      then show ?thesis by simp
    next
      case (Cons d u')
      with ut have "d = c" "s = u' @ t" "accepts a c" "list_all (accepts a) u'" by auto
      with ut(3) Cons.IH show ?thesis by auto
    qed
  qed
qed

lemma matchAnywhere_iff:
  "matchAnywhere p s \<longleftrightarrow> (\<exists>pre t. s = pre @ t \<and> matchHere p t)"
proof (induction s)
  case Nil
  then show ?case by simp
next
  case (Cons c s)
  have "(\<exists>pre t. c # s = pre @ t \<and> matchHere p t) \<longleftrightarrow>
        matchHere p (c # s) \<or> (\<exists>pre t. s = pre @ t \<and> matchHere p t)"
    by (auto simp: Cons_eq_append_conv)
  with Cons.IH show ?case by simp
qed

lemma matchHere_lits:
  "matchHere (map (\<lambda>c. One (Lit c)) w @ p) s \<longleftrightarrow> (\<exists>t. s = w @ t \<and> matchHere p t)"
proof (induction w arbitrary: s)
  case Nil
  then show ?case by simp
next
  case (Cons x w)
  show ?case by (cases s) (auto simp: Cons.IH)
qed

lemma compile_aws_internal:
  "compile ''aws-internal*'' = map (\<lambda>c. One (Lit c)) ''aws-interna'' @ [Star (Lit (CHR ''l''))]"
  by (simp add: atomOf_def)

lemma compile_console:
  "compile ''console.*.amazonaws.com'' =
     map (\<lambda>c. One (Lit c)) ''console'' @ Star AnyCharNotNL # One AnyCharNotNL #
     map (\<lambda>c. One (Lit c)) ''amazonaws'' @ One AnyCharNotNL # map (\<lambda>c. One (Lit c)) ''com'' @ []"
  by (simp add: atomOf_def)

lemma compile_signin:
  "compile ''signin.*.amazonaws.com'' =
     map (\<lambda>c. One (Lit c)) ''signin'' @ Star AnyCharNotNL # One AnyCharNotNL #
     map (\<lambda>c. One (Lit c)) ''amazonaws'' @ One AnyCharNotNL # map (\<lambda>c. One (Lit c)) ''com'' @ []"
  by (simp add: atomOf_def)

lemma match_aws_internal:
  "matchString ''aws-internal*'' ua \<longleftrightarrow> Contains ua ''aws-interna''"
proof -
  have "matchHere [Star (Lit (CHR ''l''))] t" for t
    by (cases t) simp_all
  then show ?thesis
    unfolding matchString_def compile_aws_internal matchAnywhere_iff matchHere_lits
      Contains_def sublist_def
    by auto
qed

lemma match_domain:
  "matchHere (map (\<lambda>c. One (Lit c)) w @ Star AnyCharNotNL # One AnyCharNotNL #
     map (\<lambda>c. One (Lit c)) ''amazonaws'' @ One AnyCharNotNL # map (\<lambda>c. One (Lit c)) ''com'' @ []) s
   \<longleftrightarrow> (\<exists>u d1 d2 post. s = w @ u @ d1 # ''amazonaws'' @ d2 # ''com'' @ post \<and>
          CHR 0x0A \<notin> set u \<and> d1 \<noteq> CHR 0x0A \<and> d2 \<noteq> CHR 0x0A)"
proof -
  let ?lits = "map (\<lambda>c. One (Lit c))"
  let ?p1 = "?lits ''com'' @ []"
  let ?p2 = "One AnyCharNotNL # ?p1"
  let ?p3 = "?lits ''amazonaws'' @ ?p2"
  let ?p4 = "One AnyCharNotNL # ?p3"
  let ?p5 = "Star AnyCharNotNL # ?p4"
  have all: "list_all (accepts AnyCharNotNL) u \<longleftrightarrow> CHR 0x0A \<notin> set u" for u
    by (induction u) auto
  have 1: "matchHere ?p1 t \<longleftrightarrow> (\<exists>post. t = ''com'' @ post)" for t
    unfolding matchHere_lits by simp
  have 2: "matchHere ?p2 t \<longleftrightarrow> (\<exists>d2 post. t = d2 # ''com'' @ post \<and> d2 \<noteq> CHR 0x0A)" for t
    unfolding matchHere_One 1 by auto
  have 3: "matchHere ?p3 t \<longleftrightarrow>
             (\<exists>d2 post. t = ''amazonaws'' @ d2 # ''com'' @ post \<and> d2 \<noteq> CHR 0x0A)" for t
    unfolding matchHere_lits 2 by auto
  have 4: "matchHere ?p4 t \<longleftrightarrow>
             (\<exists>d1 d2 post. t = d1 # ''amazonaws'' @ d2 # ''com'' @ post \<and>
                d1 \<noteq> CHR 0x0A \<and> d2 \<noteq> CHR 0x0A)" for t
    unfolding matchHere_One 3 by auto
  have 5: "matchHere ?p5 t \<longleftrightarrow>
             (\<exists>u d1 d2 post. t = u @ d1 # ''amazonaws'' @ d2 # ''com'' @ post \<and>
                CHR 0x0A \<notin> set u \<and> d1 \<noteq> CHR 0x0A \<and> d2 \<noteq> CHR 0x0A)" for t
    unfolding matchHere_Star 4 all by blast
  show ?thesis
    unfolding matchHere_lits 5 by blast
qed

subsection \<open>Title and the three prefix tests that use it\<close>

lemma titleFrom_keep:
  "\<not> isSeparator prev \<Longrightarrow> list_all (\<lambda>c. \<not> isSeparator c) w \<Longrightarrow>
   prefix w (titleFrom prev s) = prefix w s"
proof (induction w arbitrary: prev s)
  case Nil
  then show ?case by simp
next
  case (Cons x xs)
  show ?case
  proof (cases s)
    case Nil
    then show ?thesis by simp
  next
    case (Cons c cs)
    with Cons.prems Cons.IH [of c cs] show ?thesis by auto
  qed
qed

lemma Title_Cons: "Title (c # cs) = ToTitle c # titleFrom c cs"
  by (simp add: Title_def isSeparator_def)

lemma ToTitle_upper:
  "ToTitle c = CHR ''G'' \<longleftrightarrow> c = CHR ''G'' \<or> c = CHR ''g''"
  "ToTitle c = CHR ''L'' \<longleftrightarrow> c = CHR ''L'' \<or> c = CHR ''l''"
  "ToTitle c = CHR ''V'' \<longleftrightarrow> c = CHR ''V'' \<or> c = CHR ''v''"
  by (auto simp: ToTitle_def split: if_splits)

lemma Title_prefix:
  assumes up: "\<And>c0. ToTitle c0 = g \<longleftrightarrow> c0 = g \<or> c0 = l"
    and ns: "\<not> isSeparator g" "\<not> isSeparator l" "list_all (\<lambda>c. \<not> isSeparator c) w"
  shows "HasPrefix (Title en) (g # w) \<longleftrightarrow> HasPrefix en (g # w) \<or> HasPrefix en (l # w)"
proof (cases en)
  case Nil
  then show ?thesis by (simp add: Title_def HasPrefix_def)
next
  case (Cons c cs)
  have k: "c = g \<or> c = l \<Longrightarrow> prefix w (titleFrom c cs) = prefix w cs"
    using ns titleFrom_keep [of c w cs] by auto
  have "HasPrefix (Title en) (g # w) \<longleftrightarrow> ToTitle c = g \<and> prefix w (titleFrom c cs)"
    by (auto simp: Cons Title_Cons HasPrefix_def)
  also have "\<dots> \<longleftrightarrow> (c = g \<or> c = l) \<and> prefix w cs"
    using k up by blast
  also have "\<dots> \<longleftrightarrow> HasPrefix en (g # w) \<or> HasPrefix en (l # w)"
    by (auto simp: Cons HasPrefix_def)
  finally show ?thesis .
qed

lemma Title_Get: "HasPrefix (Title en) ''Get'' \<longleftrightarrow> HasPrefix en ''Get'' \<or> HasPrefix en ''get''"
  by (rule Title_prefix) (simp_all add: ToTitle_upper isSeparator_def)

lemma Title_List: "HasPrefix (Title en) ''List'' \<longleftrightarrow> HasPrefix en ''List'' \<or> HasPrefix en ''list''"
  by (rule Title_prefix) (simp_all add: ToTitle_upper isSeparator_def)

lemma Title_View: "HasPrefix (Title en) ''View'' \<longleftrightarrow> HasPrefix en ''View'' \<or> HasPrefix en ''view''"
  by (rule Title_prefix) (simp_all add: ToTitle_upper isSeparator_def)

section \<open>Properties of the filter\<close>

subsection \<open>Which records are logged\<close>

lemma filter_isLog_notify: "filter isLog (notify fmtv e evt r) = [Log (logEntry fmtv evt r)]"
  by (simp add: notify_def split: option.splits)

text \<open>
  C1, as the code has it: the log entries written by \<^verbatim>\<open>FilterRecords\<close> are those of the
  records whose verdict is Notify (control reaches line 187), one entry each, in file
  order, up to the first record that panics. A record whose verdict is Suppress writes no
  entry: the \<^verbatim>\<open>continue\<close> statements skip the call at line 195.
\<close>

theorem log_entries_of_batch:
  "filter isLog (fst (FilterRecords fmtv e evt rs)) =
   map (\<lambda>r. Log (logEntry fmtv evt r))
     (filter (\<lambda>r. classify r = Next) (takeWhile (\<lambda>r. classify r \<noteq> Panic) rs))"
proof (induction rs)
  case Nil
  then show ?case by simp
next
  case (Cons r rs)
  show ?case
  proof (cases "classify r")
    case Continue
    with Cons.IH show ?thesis by simp
  next
    case Next
    obtain fx st where "FilterRecords fmtv e evt rs = (fx, st)"
      by (cases "FilterRecords fmtv e evt rs")
    with Next Cons.IH show ?thesis
      by (simp add: filter_isLog_notify)
  next
    case Panic
    then show ?thesis by simp
  qed
qed

text \<open>
  C1 as stated fails: a record that is processed and suppressed (an event name starting
  with Get) leaves no log entry.
\<close>

theorem suppressed_record_not_logged:
  "classify [(''eventName'', JStr ''GetObject''), (''eventSource'', JStr ''s3.amazonaws.com''),
             (''userAgent'', JStr ''console.amazonaws.com'')] = Continue \<and>
   FilterRecords (\<lambda>v. []) Map.empty
     \<lparr>AWSRegion = ''us-east-1'', BucketName = ''trail'', ObjectKey = ''AWSLogs/1/CloudTrail/a.json.gz''\<rparr>
     [[(''eventName'', JStr ''GetObject''), (''eventSource'', JStr ''s3.amazonaws.com''),
       (''userAgent'', JStr ''console.amazonaws.com'')]] = ([], Returned None)"
  by code_simp

subsection \<open>Records without a string event name\<close>

text \<open>
  C2: a record without \<^verbatim>\<open>eventName\<close> should degrade to defaults and the batch should go
  on. In the code the one-value type assertion at line 60 panics: the batch below ends
  with no effect, although its second record alone is logged.
\<close>

theorem missing_eventName_panics:
  "FilterRecords (\<lambda>v. []) Map.empty
     \<lparr>AWSRegion = ''us-east-1'', BucketName = ''trail'', ObjectKey = ''AWSLogs/1/CloudTrail/a.json.gz''\<rparr>
     [[(''eventSource'', JStr ''iam.amazonaws.com''), (''userAgent'', JStr ''console.amazonaws.com'')],
      [(''eventName'', JStr ''CreateUser''), (''userAgent'', JStr ''console.amazonaws.com'')]]
   = ([], Panicked) \<and>
   fst (FilterRecords (\<lambda>v. []) Map.empty
     \<lparr>AWSRegion = ''us-east-1'', BucketName = ''trail'', ObjectKey = ''AWSLogs/1/CloudTrail/a.json.gz''\<rparr>
     [[(''eventName'', JStr ''CreateUser''), (''userAgent'', JStr ''console.amazonaws.com'')]]) \<noteq> []"
  by code_simp

subsection \<open>The internal invoker\<close>

text \<open>
  C3: a record whose \<^verbatim>\<open>userIdentity.invokedBy\<close> is "AWS Internal" is suppressed,
  whatever its event name is and also when it has none; the test comes before every
  other one, so nothing else of the record is looked at and the loop goes on with the
  next record.
\<close>

theorem internal_invoker_suppressed:
  assumes "index (asMap (index r ''userIdentity'')) ''invokedBy'' = JStr ''AWS Internal''"
  shows "classify r = Continue \<and>
         FilterRecords fmtv e evt (r # rs) = FilterRecords fmtv e evt rs"
proof -
  from assms have "classify r = Continue" by (simp add: classify_def)
  then show ?thesis by simp
qed

text \<open>C3 at a record that has no event name at all.\<close>

theorem internal_invoker_suppressed_witness:
  "index (asMap (index [(''userIdentity'', JObj [(''invokedBy'', JStr ''AWS Internal'')])]
      ''userIdentity'')) ''invokedBy'' = JStr ''AWS Internal'' \<and>
   index [(''userIdentity'', JObj [(''invokedBy'', JStr ''AWS Internal'')])] ''eventName'' = JNull \<and>
   classify [(''userIdentity'', JObj [(''invokedBy'', JStr ''AWS Internal'')])] = Continue"
proof -
  have h: "index (asMap (index [(''userIdentity'', JObj [(''invokedBy'', JStr ''AWS Internal'')])]
      ''userIdentity'')) ''invokedBy'' = JStr ''AWS Internal''"
    by (simp add: index_def asMap_def)
  from internal_invoker_suppressed [OF h] h show ?thesis by (simp add: index_def)
qed

subsection \<open>Digest and Config objects\<close>

text \<open>
  C9: when the object key contains "/CloudTrail-Digest/" or "/Config/", processing
  the reference makes no GetObject request, writes no log entry, posts no notification
  (the trace is empty, so no record was processed) and returns nil.
\<close>

theorem digest_and_config_keys_skipped:
  assumes "Contains (ObjectKey evt) ''/CloudTrail-Digest/'' \<or> Contains (ObjectKey evt) ''/Config/''"
  shows "fetchLogFromS3 GetObject (BucketName evt) (ObjectKey evt) = ([], Inr None) \<and>
         Stream GetObject gunzip unmarshal fmtv e evt = ([], Returned None)"
  using assms by (auto simp: Stream_def fetchLogFromS3_def)

text \<open>
  C9 at a digest key, with a store that would deliver a record to notify; the same
  store under a key that is not skipped leaves a trace.
\<close>

theorem digest_and_config_keys_skipped_witness:
  "Contains (ObjectKey \<lparr>AWSRegion = ''us-east-1'', BucketName = ''trail'',
       ObjectKey = ''AWSLogs/1/CloudTrail-Digest/us-east-1/d.json.gz''\<rparr>) ''/CloudTrail-Digest/'' \<and>
   Stream (\<lambda>b k. Inr \<lparr>ContentType = None, Body = ''x''\<rparr>) Inr
       (\<lambda>b. Inr [[(''eventName'', JStr ''CreateUser'')]]) (\<lambda>v. []) Map.empty
       \<lparr>AWSRegion = ''us-east-1'', BucketName = ''trail'',
         ObjectKey = ''AWSLogs/1/CloudTrail-Digest/us-east-1/d.json.gz''\<rparr> = ([], Returned None) \<and>
   Stream (\<lambda>b k. Inr \<lparr>ContentType = None, Body = ''x''\<rparr>) Inr
       (\<lambda>b. Inr [[(''eventName'', JStr ''CreateUser'')]]) (\<lambda>v. []) Map.empty
       \<lparr>AWSRegion = ''us-east-1'', BucketName = ''trail'',
         ObjectKey = ''AWSLogs/1/CloudTrail/us-east-1/d.json.gz''\<rparr> \<noteq> ([], Returned None)"
proof -
  let ?evt = "\<lparr>AWSRegion = ''us-east-1'', BucketName = ''trail'',
       ObjectKey = ''AWSLogs/1/CloudTrail-Digest/us-east-1/d.json.gz''\<rparr>"
  have h: "Contains (ObjectKey ?evt) ''/CloudTrail-Digest/''"
    by code_simp
  then have h': "Contains (ObjectKey ?evt) ''/CloudTrail-Digest/'' \<or> Contains (ObjectKey ?evt) ''/Config/''"
    by simp
  have n: "Stream (\<lambda>b k. Inr \<lparr>ContentType = None, Body = ''x''\<rparr>) Inr
       (\<lambda>b. Inr [[(''eventName'', JStr ''CreateUser'')]]) (\<lambda>v. []) Map.empty
       \<lparr>AWSRegion = ''us-east-1'', BucketName = ''trail'',
         ObjectKey = ''AWSLogs/1/CloudTrail/us-east-1/d.json.gz''\<rparr> \<noteq> ([], Returned None)"
    by code_simp
  from digest_and_config_keys_skipped [OF h'] h n show ?thesis by blast
qed

subsection \<open>The normalized actor name\<close>

text \<open>
  C4, as the code has it: the \<^verbatim>\<open>user_name\<close> of the log entry of a record is the
  string form of \<^verbatim>\<open>userIdentity.userName\<close> when that is present and not null;
  otherwise it is the string form of \<^verbatim>\<open>userIdentity.principalId\<close>, or, when that
  string contains a colon, the piece of it between the first colon and the second
  (\<^verbatim>\<open>strings.Split(userName, ":")[1]\<close>), which is everything after the first colon
  when there is only one.
\<close>

theorem user_name_of_log_entry:
  "user_name (logEntry fmtv evt r) =
     (let userIdentity = asMap (index r ''userIdentity'');
          p = Sprintf_s fmtv (index userIdentity ''principalId'')
      in if index userIdentity ''userName'' \<noteq> JNull
         then Sprintf_s fmtv (index userIdentity ''userName'')
         else if CHR '':'' \<in> set p then secondPiece p else p)"
proof -
  have "Split p (CHR '':'') ! 1 = secondPiece p" if "CHR '':'' \<in> set p" for p
    using Split_second(2) [OF that] by (simp add: secondPiece_def afterFirstColon_def)
  then show ?thesis
    by (simp add: logEntry_def userNameOf_def Let_def Contains_char del: One_nat_def)
qed

text \<open>
  C4 at the two examples of the claim: "AROAEXAMPLE:session-bob" gives "session-bob",
  and with the user name "alice" it gives "alice".
\<close>

theorem user_name_of_log_entry_witness:
  "user_name (logEntry (\<lambda>v. [])
      \<lparr>AWSRegion = ''us-east-1'', BucketName = ''trail'', ObjectKey = ''a.json.gz''\<rparr>
      [(''userIdentity'', JObj [(''principalId'', JStr ''AROAEXAMPLE:session-bob'')])])
     = ''session-bob'' \<and>
   user_name (logEntry (\<lambda>v. [])
      \<lparr>AWSRegion = ''us-east-1'', BucketName = ''trail'', ObjectKey = ''a.json.gz''\<rparr>
      [(''userIdentity'', JObj [(''principalId'', JStr ''AROAEXAMPLE:session-bob''),
                                (''userName'', JStr ''alice'')])])
     = ''alice''"
  by (simp add: user_name_of_log_entry index_def asMap_def Sprintf_s_def secondPiece_def
      afterFirstColon_def)

text \<open>
  C4 as stated fails: for a principal with two colons, as the ones of web identity
  users, the name is the middle piece and not the rest of the string after the first
  colon. The record reaches the log call.
\<close>

theorem user_name_not_rest_after_colon:
  "classify [(''eventName'', JStr ''CreateBucket''), (''userIdentity'',
       JObj [(''principalId'', JStr ''accounts.google.com:app-id:user-id'')])] = Next \<and>
   user_name (logEntry (\<lambda>v. []) \<lparr>AWSRegion = ''us-east-1'', BucketName = ''trail'', ObjectKey = ''a.json.gz''\<rparr>
     [(''eventName'', JStr ''CreateBucket''), (''userIdentity'',
       JObj [(''principalId'', JStr ''accounts.google.com:app-id:user-id'')])]) = ''app-id'' \<and>
   afterFirstColon ''accounts.google.com:app-id:user-id'' = ''app-id:user-id''"
  by code_simp

subsection \<open>The switch on the event name\<close>

lemma eventNameSwitch_PutQueryDefinition:
  "eventNameSwitch r ui ''PutQueryDefinition'' =
     (if index r ''eventSource'' = JStr ''logs.amazonaws.com'' then Continue else Next)"
  by (simp add: eventNameSwitch_def Title_def isSeparator_def ToTitle_def HasPrefix_def
      HasSuffix_def suffix_to_prefix)

lemma eventNameSwitch_AssumeRole:
  "eventNameSwitch r ui ''AssumeRole'' =
     (if index r ''userAgent'' = JStr ''Coral/Netty4'' \<and>
         index ui ''invokedBy'' \<in>
           {JStr ''ecs-tasks.amazonaws.com'', JStr ''ec2.amazonaws.com'',
            JStr ''monitoring.rds.amazonaws.com'', JStr ''lambda.amazonaws.com''}
      then Continue else Next)"
  by (simp add: eventNameSwitch_def Title_def isSeparator_def ToTitle_def HasPrefix_def
      HasSuffix_def suffix_to_prefix)

lemma classify_after_stageB:
  "index (asMap (index r ''userIdentity'')) ''invokedBy'' \<noteq> JStr ''AWS Internal'' \<Longrightarrow>
   stageB r (asMap (index r ''userIdentity'')) = Next \<Longrightarrow> classify r = stageC r"
  by (simp add: classify_def Let_def)

lemma classify_stageB_Continue:
  "stageB r (asMap (index r ''userIdentity'')) = Continue \<Longrightarrow> classify r = Continue"
  by (simp add: classify_def Let_def)

lemma exact_prefix_Continue:
  "list_ex (HasPrefix en) exactCasePrefixes \<Longrightarrow> eventNameSwitch r ui en = Continue"
proof -
  assume "list_ex (HasPrefix en) exactCasePrefixes"
  then have "HasPrefix en ''Head'' \<or> HasPrefix en ''Describe'' \<or> HasPrefix en ''Test'' \<or>
    HasPrefix en ''Download'' \<or> HasPrefix en ''Report'' \<or> HasPrefix en ''Poll'' \<or>
    HasPrefix en ''Verify'' \<or> HasPrefix en ''Skip'' \<or> HasPrefix en ''Count'' \<or>
    HasPrefix en ''Detect'' \<or> HasPrefix en ''Lookup'' \<or> HasPrefix en ''StartQuery'' \<or>
    HasPrefix en ''StopQuery'' \<or> HasPrefix en ''CancelQuery'' \<or> HasPrefix en ''BatchGet'' \<or>
    HasPrefix en ''Search''"
    by (simp add: exactCasePrefixes_def)
  then show ?thesis
    by (elim disjE) (simp_all add: eventNameSwitch_def)
qed

lemma title_prefix_Continue:
  assumes "HasPrefix en ''Get'' \<or> HasPrefix en ''get'' \<or> HasPrefix en ''List'' \<or>
           HasPrefix en ''list'' \<or> HasPrefix en ''View'' \<or> HasPrefix en ''view''"
  shows "eventNameSwitch r ui en = Continue"
proof -
  from assms have "HasPrefix (Title en) ''Get'' \<or> HasPrefix (Title en) ''List'' \<or>
      HasPrefix (Title en) ''View''"
    unfolding Title_Get Title_List Title_View by blast
  then show ?thesis
    by (elim disjE) (simp_all add: eventNameSwitch_def)
qed

lemma lower_initial_switch:
  assumes lo: "c \<in> set ''abcdefghijklmnopqrstuvwxyz''"
  shows "eventNameSwitch r ui (c # cs) =
     (if HasPrefix (c # cs) ''get'' then Continue
      else if HasPrefix (c # cs) ''list'' then Continue
      else if HasPrefix (c # cs) ''view'' then Continue
      else if HasSuffix (c # cs) ''VirtualMFADevice'' then Continue
      else Next)"
proof -
  have up: "c \<noteq> p" if "p \<in> set ''ABCDEFGHIJKLMNOPQRSTUVWXYZ''" for p
    using lo that by auto
  have np: "\<not> HasPrefix (c # cs) (p # ps)" if "p \<in> set ''ABCDEFGHIJKLMNOPQRSTUVWXYZ''" for p ps
    using up [OF that] by (simp add: HasPrefix_def)
  have ne: "c # cs \<noteq> p # ps" if "p \<in> set ''ABCDEFGHIJKLMNOPQRSTUVWXYZ''" for p ps
    using up [OF that] by simp
  have t: "HasPrefix (Title (c # cs)) ''Get'' = HasPrefix (c # cs) ''get''"
      "HasPrefix (Title (c # cs)) ''List'' = HasPrefix (c # cs) ''list''"
      "HasPrefix (Title (c # cs)) ''View'' = HasPrefix (c # cs) ''view''"
    unfolding Title_Get Title_List Title_View using np by simp_all
  have x: "\<not> HasPrefix (c # cs) ''Head''" "\<not> HasPrefix (c # cs) ''Describe''"
      "\<not> HasPrefix (c # cs) ''Test''" "\<not> HasPrefix (c # cs) ''Download''"
      "\<not> HasPrefix (c # cs) ''Report''" "\<not> HasPrefix (c # cs) ''Poll''"
      "\<not> HasPrefix (c # cs) ''Verify''" "\<not> HasPrefix (c # cs) ''Skip''"
      "\<not> HasPrefix (c # cs) ''Count''" "\<not> HasPrefix (c # cs) ''Detect''"
      "\<not> HasPrefix (c # cs) ''Lookup''" "\<not> HasPrefix (c # cs) ''StartQuery''"
      "\<not> HasPrefix (c # cs) ''StopQuery''" "\<not> HasPrefix (c # cs) ''CancelQuery''"
      "\<not> HasPrefix (c # cs) ''BatchGet''" "\<not> HasPrefix (c # cs) ''Search''"
    by (rule np, simp)+
  have y: "c # cs \<noteq> ''ConsoleLogin''" "c # cs \<noteq> ''CheckMfa''"
      "c # cs \<noteq> ''CheckDomainAvailability''" "c # cs \<noteq> ''Decrypt''"
      "c # cs \<noteq> ''SetTaskStatus''" "c # cs \<noteq> ''BatchGetQueryExecution''"
      "c # cs \<noteq> ''QueryObjects''" "c # cs \<noteq> ''GenerateServiceLastAccessedDetails''"
      "c # cs \<noteq> ''REST.GET.OBJECT_LOCK_CONFIGURATION''"
      "c # cs \<noteq> ''AssumeRoleWithWebIdentity''" "c # cs \<noteq> ''PutQueryDefinition''"
      "c # cs \<noteq> ''PutObject''" "c # cs \<noteq> ''AssumeRole''"
    by (rule ne, simp)+
  show ?thesis
    unfolding eventNameSwitch_def t
    by (simp only: x y if_False)
qed

text \<open>
  C5: the prefixes Get, List and View are tested on the name with its first letter in
  title case, so a name starting with get, list or view is suppressed like one
  starting with Get, List or View; every other prefix is tested on the name as written.
  A name whose first letter is a lower-case letter is suppressed only for the three
  title-cased prefixes (or by the suffix rule), never for one of the other prefixes.
\<close>

theorem prefix_case_asymmetry:
  assumes "index r ''eventName'' = JStr en"
  shows "(HasPrefix en ''Get'' \<or> HasPrefix en ''get'' \<or> HasPrefix en ''List'' \<or>
          HasPrefix en ''list'' \<or> HasPrefix en ''View'' \<or> HasPrefix en ''view''
            \<longrightarrow> stageB r ui = Continue) \<and>
         (list_ex (HasPrefix en) exactCasePrefixes \<longrightarrow> stageB r ui = Continue) \<and>
         (en \<noteq> [] \<and> hd en \<in> set ''abcdefghijklmnopqrstuvwxyz'' \<longrightarrow>
            (stageB r ui = Continue \<longleftrightarrow>
               HasPrefix en ''get'' \<or> HasPrefix en ''list'' \<or> HasPrefix en ''view'' \<or>
               HasSuffix en ''VirtualMFADevice''))"
proof -
  have b: "stageB r ui = eventNameSwitch r ui en"
    using assms by (simp add: stageB_def)
  have 3: "eventNameSwitch r ui en = Continue \<longleftrightarrow>
             HasPrefix en ''get'' \<or> HasPrefix en ''list'' \<or> HasPrefix en ''view'' \<or>
             HasSuffix en ''VirtualMFADevice''"
    if ne: "en \<noteq> []" and lo: "hd en \<in> set ''abcdefghijklmnopqrstuvwxyz''"
  proof -
    obtain c cs where en: "en = c # cs" using ne by (cases en) auto
    from lo en have "c \<in> set ''abcdefghijklmnopqrstuvwxyz''" by simp
    from lower_initial_switch [OF this, of r ui cs] show ?thesis
      unfolding en by (simp split: if_splits)
  qed
  show ?thesis
    unfolding b using title_prefix_Continue [of en r ui] exact_prefix_Continue [of en r ui] 3
    by blast
qed

text \<open>
  C5 at the examples of the claim: "getFoo" and "DescribeFoo" are suppressed,
  "describeFoo" is not.
\<close>

theorem prefix_case_asymmetry_witness:
  "stageB [(''eventName'', JStr ''getFoo'')] [] = Continue \<and>
   stageB [(''eventName'', JStr ''DescribeFoo'')] [] = Continue \<and>
   stageB [(''eventName'', JStr ''describeFoo'')] [] \<noteq> Continue"
proof -
  have h1: "index [(''eventName'', JStr ''getFoo'')] ''eventName'' = JStr ''getFoo''"
    and h2: "index [(''eventName'', JStr ''DescribeFoo'')] ''eventName'' = JStr ''DescribeFoo''"
    and h3: "index [(''eventName'', JStr ''describeFoo'')] ''eventName'' = JStr ''describeFoo''"
    by (simp_all add: index_def)
  have a: "HasPrefix ''getFoo'' ''get''" by (simp add: HasPrefix_def)
  have b: "list_ex (HasPrefix ''DescribeFoo'') exactCasePrefixes"
    by (simp add: exactCasePrefixes_def HasPrefix_def)
  have c: "''describeFoo'' \<noteq> [] \<and> hd ''describeFoo'' \<in> set ''abcdefghijklmnopqrstuvwxyz''"
    by simp
  have d: "\<not> (HasPrefix ''describeFoo'' ''get'' \<or> HasPrefix ''describeFoo'' ''list'' \<or>
     HasPrefix ''describeFoo'' ''view'' \<or> HasSuffix ''describeFoo'' ''VirtualMFADevice'')"
    by (simp add: HasPrefix_def HasSuffix_def suffix_to_prefix)
  from prefix_case_asymmetry [OF h1, of "[]"] prefix_case_asymmetry [OF h2, of "[]"]
    prefix_case_asymmetry [OF h3, of "[]"] a b c d
  show ?thesis by blast
qed

text \<open>
  C6: a record named PutQueryDefinition is suppressed when its event source is
  "logs.amazonaws.com"; with any other event source the switch on the event name lets it
  through and, unless the internal invoker test has dropped it before, its verdict is
  the one of the user agent check.
\<close>

theorem PutQueryDefinition_rule:
  assumes "index r ''eventName'' = JStr ''PutQueryDefinition''"
  shows "(index r ''eventSource'' = JStr ''logs.amazonaws.com'' \<longrightarrow> classify r = Continue) \<and>
         (index r ''eventSource'' \<noteq> JStr ''logs.amazonaws.com'' \<longrightarrow>
            stageB r (asMap (index r ''userIdentity'')) = Next \<and>
            (index (asMap (index r ''userIdentity'')) ''invokedBy'' \<noteq> JStr ''AWS Internal'' \<longrightarrow>
               classify r = stageC r))"
proof -
  let ?ui = "asMap (index r ''userIdentity'')"
  have b: "stageB r ?ui =
     (if index r ''eventSource'' = JStr ''logs.amazonaws.com'' then Continue else Next)"
    using assms by (simp add: stageB_def eventNameSwitch_PutQueryDefinition)
  show ?thesis
    using b classify_after_stageB [of r] classify_stageB_Continue [of r] by auto
qed

text \<open>C6 at a record from CloudWatch Logs and at one from another source.\<close>

theorem PutQueryDefinition_rule_witness:
  "classify [(''eventName'', JStr ''PutQueryDefinition''),
             (''eventSource'', JStr ''logs.amazonaws.com'')] = Continue \<and>
   stageB [(''eventName'', JStr ''PutQueryDefinition''),
           (''eventSource'', JStr ''cloudtrail.amazonaws.com''),
           (''userAgent'', JStr ''console.amazonaws.com'')] [] = Next \<and>
   classify [(''eventName'', JStr ''PutQueryDefinition''),
             (''eventSource'', JStr ''cloudtrail.amazonaws.com''),
             (''userAgent'', JStr ''console.amazonaws.com'')] =
   stageC [(''eventName'', JStr ''PutQueryDefinition''),
           (''eventSource'', JStr ''cloudtrail.amazonaws.com''),
           (''userAgent'', JStr ''console.amazonaws.com'')]"
proof -
  let ?r1 = "[(''eventName'', JStr ''PutQueryDefinition''),
              (''eventSource'', JStr ''logs.amazonaws.com'')]"
  let ?r2 = "[(''eventName'', JStr ''PutQueryDefinition''),
              (''eventSource'', JStr ''cloudtrail.amazonaws.com''),
              (''userAgent'', JStr ''console.amazonaws.com'')]"
  have h1: "index ?r1 ''eventName'' = JStr ''PutQueryDefinition''"
    and h2: "index ?r2 ''eventName'' = JStr ''PutQueryDefinition''"
    by (simp_all add: index_def)
  have a: "index ?r1 ''eventSource'' = JStr ''logs.amazonaws.com''"
    and b: "index ?r2 ''eventSource'' \<noteq> JStr ''logs.amazonaws.com''"
    and c: "index (asMap (index ?r2 ''userIdentity'')) ''invokedBy'' \<noteq> JStr ''AWS Internal''"
    and d: "asMap (index ?r2 ''userIdentity'') = []"
    by (simp_all add: index_def asMap_def)
  from PutQueryDefinition_rule [OF h1] PutQueryDefinition_rule [OF h2] a b c d
  show ?thesis by simp
qed

text \<open>
  C7: a record named AssumeRole is suppressed by the switch on the event name exactly
  when its user agent is "Coral/Netty4" and its invoker is one of the four service
  principals; otherwise the switch lets it through to the user agent check.
\<close>

theorem AssumeRole_rule:
  assumes "index r ''eventName'' = JStr ''AssumeRole''"
  shows "(stageB r (asMap (index r ''userIdentity'')) = Continue \<longleftrightarrow>
            index r ''userAgent'' = JStr ''Coral/Netty4'' \<and>
            index (asMap (index r ''userIdentity'')) ''invokedBy'' \<in>
              {JStr ''ecs-tasks.amazonaws.com'', JStr ''ec2.amazonaws.com'',
               JStr ''monitoring.rds.amazonaws.com'', JStr ''lambda.amazonaws.com''}) \<and>
         (stageB r (asMap (index r ''userIdentity'')) = Continue \<longrightarrow> classify r = Continue) \<and>
         (stageB r (asMap (index r ''userIdentity'')) \<noteq> Continue \<longrightarrow>
            stageB r (asMap (index r ''userIdentity'')) = Next \<and>
            (index (asMap (index r ''userIdentity'')) ''invokedBy'' \<noteq> JStr ''AWS Internal'' \<longrightarrow>
               classify r = stageC r))"
proof -
  let ?ui = "asMap (index r ''userIdentity'')"
  have b: "stageB r ?ui =
     (if index r ''userAgent'' = JStr ''Coral/Netty4'' \<and>
         index ?ui ''invokedBy'' \<in>
           {JStr ''ecs-tasks.amazonaws.com'', JStr ''ec2.amazonaws.com'',
            JStr ''monitoring.rds.amazonaws.com'', JStr ''lambda.amazonaws.com''}
      then Continue else Next)"
    using assms by (simp add: stageB_def eventNameSwitch_AssumeRole)
  have 1: "stageB r ?ui = Continue \<longleftrightarrow>
            index r ''userAgent'' = JStr ''Coral/Netty4'' \<and>
            index ?ui ''invokedBy'' \<in>
              {JStr ''ecs-tasks.amazonaws.com'', JStr ''ec2.amazonaws.com'',
               JStr ''monitoring.rds.amazonaws.com'', JStr ''lambda.amazonaws.com''}"
    unfolding b by simp
  have 2: "stageB r ?ui \<noteq> Continue \<longrightarrow> stageB r ?ui = Next"
    unfolding b by simp
  show ?thesis
    using 1 2 classify_after_stageB [of r] classify_stageB_Continue [of r] by blast
qed

text \<open>
  C7 at the examples of the specification: the invoker "ec2.amazonaws.com" and the
  invoker "some-other.amazonaws.com".
\<close>

theorem AssumeRole_rule_witness:
  "classify [(''eventName'', JStr ''AssumeRole''), (''userAgent'', JStr ''Coral/Netty4''),
             (''userIdentity'', JObj [(''invokedBy'', JStr ''ec2.amazonaws.com'')])] = Continue \<and>
   classify [(''eventName'', JStr ''AssumeRole''), (''userAgent'', JStr ''Coral/Netty4''),
             (''userIdentity'', JObj [(''invokedBy'', JStr ''some-other.amazonaws.com'')])] =
   stageC [(''eventName'', JStr ''AssumeRole''), (''userAgent'', JStr ''Coral/Netty4''),
           (''userIdentity'', JObj [(''invokedBy'', JStr ''some-other.amazonaws.com'')])]"
proof -
  let ?r1 = "[(''eventName'', JStr ''AssumeRole''), (''userAgent'', JStr ''Coral/Netty4''),
              (''userIdentity'', JObj [(''invokedBy'', JStr ''ec2.amazonaws.com'')])]"
  let ?r2 = "[(''eventName'', JStr ''AssumeRole''), (''userAgent'', JStr ''Coral/Netty4''),
              (''userIdentity'', JObj [(''invokedBy'', JStr ''some-other.amazonaws.com'')])]"
  have h1: "index ?r1 ''eventName'' = JStr ''AssumeRole''"
    and h2: "index ?r2 ''eventName'' = JStr ''AssumeRole''"
    by (simp_all add: index_def)
  have a: "index ?r1 ''userAgent'' = JStr ''Coral/Netty4''"
    and b: "index (asMap (index ?r1 ''userIdentity'')) ''invokedBy'' = JStr ''ec2.amazonaws.com''"
    and c: "index (asMap (index ?r2 ''userIdentity'')) ''invokedBy'' =
            JStr ''some-other.amazonaws.com''"
    by (simp_all add: index_def asMap_def)
  from AssumeRole_rule [OF h1] a b have 1: "classify ?r1 = Continue" by simp
  from AssumeRole_rule [OF h2] c have 2: "classify ?r2 = stageC ?r2" by simp
  from 1 2 show ?thesis by simp
qed

subsection \<open>The switch on the user agent\<close>

lemma userAgentSwitch_allowListed:
  "userAgentSwitch ua = (if allowListed ua then Next else Continue)"
  by (simp add: userAgentSwitch_def allowListed_def)

lemma eventNameSwitch_CreateUser: "eventNameSwitch r ui ''CreateUser'' = Next"
  by (simp add: eventNameSwitch_def Title_def isSeparator_def ToTitle_def HasPrefix_def
      HasSuffix_def suffix_to_prefix)

text \<open>
  C8: for a record that neither the internal invoker test nor the switch on the event
  name has dropped, the verdict is Notify when the key \<^verbatim>\<open>userAgent\<close> is absent, and,
  when it holds a string, Notify if the string matches an entry of the allow-list and
  Suppress if it matches none.
\<close>

theorem user_agent_stage:
  assumes "index (asMap (index r ''userIdentity'')) ''invokedBy'' \<noteq> JStr ''AWS Internal''"
    and "stageB r (asMap (index r ''userIdentity'')) = Next"
  shows "(map_of r ''userAgent'' = None \<longrightarrow> classify r = Next) \<and>
         (map_of r ''userAgent'' = Some (JStr ua) \<longrightarrow>
            classify r = (if allowListed ua then Next else Continue))"
  using classify_after_stageB [OF assms]
  by (simp add: stageC_def userAgentSwitch_allowListed)

text \<open>
  C8 at a record without user agent, at one with the user agent "curl/7.64" and at one
  with a browser's user agent.
\<close>

theorem user_agent_stage_witness:
  "classify [(''eventName'', JStr ''CreateUser'')] = Next \<and>
   classify [(''eventName'', JStr ''CreateUser''), (''userAgent'', JStr ''curl/7.64'')] = Continue \<and>
   classify [(''eventName'', JStr ''CreateUser''), (''userAgent'', JStr ''Mozilla/5.0'')] = Next"
proof -
  let ?r1 = "[(''eventName'', JStr ''CreateUser'')]"
  let ?r2 = "[(''eventName'', JStr ''CreateUser''), (''userAgent'', JStr ''curl/7.64'')]"
  let ?r3 = "[(''eventName'', JStr ''CreateUser''), (''userAgent'', JStr ''Mozilla/5.0'')]"
  have a1: "index (asMap (index ?r1 ''userIdentity'')) ''invokedBy'' \<noteq> JStr ''AWS Internal''"
    and a2: "index (asMap (index ?r2 ''userIdentity'')) ''invokedBy'' \<noteq> JStr ''AWS Internal''"
    and a3: "index (asMap (index ?r3 ''userIdentity'')) ''invokedBy'' \<noteq> JStr ''AWS Internal''"
    by (simp_all add: index_def asMap_def)
  have b1: "stageB ?r1 (asMap (index ?r1 ''userIdentity'')) = Next"
    and b2: "stageB ?r2 (asMap (index ?r2 ''userIdentity'')) = Next"
    and b3: "stageB ?r3 (asMap (index ?r3 ''userIdentity'')) = Next"
    by (simp_all add: stageB_def index_def eventNameSwitch_CreateUser)
  have c2: "\<not> allowListed ''curl/7.64''" by code_simp
  have c3: "allowListed ''Mozilla/5.0''" by code_simp
  from user_agent_stage [OF a1 b1] have 1: "classify ?r1 = Next" by simp
  from user_agent_stage [OF a2 b2, of "''curl/7.64''"] c2 have 2: "classify ?r2 = Continue"
    by simp
  from user_agent_stage [OF a3 b3, of "''Mozilla/5.0''"] c3 have 3: "classify ?r3 = Next"
    by simp
  from 1 2 3 show ?thesis by simp
qed

text \<open>
  C10, as the code has it: the three regular expressions are searched for anywhere in
  the user agent. "aws-internal*" matches exactly the strings that contain
  "aws-interna"; "console.*.amazonaws.com" and "signin.*.amazonaws.com" match exactly
  the strings that contain the word, then any characters and one more character, then
  "amazonaws", one character and "com", where none of these characters is a newline.
  A user agent that matches one of the three passes the switch.
\<close>

theorem regex_entries_unanchored:
  "(matchString ''aws-internal*'' ua \<longleftrightarrow> Contains ua ''aws-interna'') \<and>
   (matchString ''console.*.amazonaws.com'' ua \<longleftrightarrow>
      (\<exists>pre u d1 d2 post.
         ua = pre @ ''console'' @ u @ d1 # ''amazonaws'' @ d2 # ''com'' @ post \<and>
         CHR 0x0A \<notin> set u \<and> d1 \<noteq> CHR 0x0A \<and> d2 \<noteq> CHR 0x0A)) \<and>
   (matchString ''signin.*.amazonaws.com'' ua \<longleftrightarrow>
      (\<exists>pre u d1 d2 post.
         ua = pre @ ''signin'' @ u @ d1 # ''amazonaws'' @ d2 # ''com'' @ post \<and>
         CHR 0x0A \<notin> set u \<and> d1 \<noteq> CHR 0x0A \<and> d2 \<noteq> CHR 0x0A)) \<and>
   (Contains ua ''aws-interna'' \<or> matchString ''console.*.amazonaws.com'' ua \<or>
    matchString ''signin.*.amazonaws.com'' ua \<longrightarrow>
      userAgentSwitch ua = Next \<and>
      (map_of r ''userAgent'' = Some (JStr ua) \<longrightarrow> stageC r = Next))"
proof -
  have 1: "matchString ''aws-internal*'' ua \<longleftrightarrow> Contains ua ''aws-interna''"
    by (rule match_aws_internal)
  have 2: "matchString ''console.*.amazonaws.com'' ua \<longleftrightarrow>
      (\<exists>pre u d1 d2 post.
         ua = pre @ ''console'' @ u @ d1 # ''amazonaws'' @ d2 # ''com'' @ post \<and>
         CHR 0x0A \<notin> set u \<and> d1 \<noteq> CHR 0x0A \<and> d2 \<noteq> CHR 0x0A)"
    unfolding matchString_def compile_console matchAnywhere_iff match_domain by blast
  have 3: "matchString ''signin.*.amazonaws.com'' ua \<longleftrightarrow>
      (\<exists>pre u d1 d2 post.
         ua = pre @ ''signin'' @ u @ d1 # ''amazonaws'' @ d2 # ''com'' @ post \<and>
         CHR 0x0A \<notin> set u \<and> d1 \<noteq> CHR 0x0A \<and> d2 \<noteq> CHR 0x0A)"
    unfolding matchString_def compile_signin matchAnywhere_iff match_domain by blast
  have 4: "userAgentSwitch ua = Next"
    if "matchString ''aws-internal*'' ua \<or> matchString ''console.*.amazonaws.com'' ua \<or>
        matchString ''signin.*.amazonaws.com'' ua"
    using that by (elim disjE) (simp_all add: userAgentSwitch_def)
  have 5: "stageC r = userAgentSwitch ua" if "map_of r ''userAgent'' = Some (JStr ua)"
    using that by (simp add: stageC_def)
  have 6: "Contains ua ''aws-interna'' \<or> matchString ''console.*.amazonaws.com'' ua \<or>
      matchString ''signin.*.amazonaws.com'' ua \<longrightarrow>
        userAgentSwitch ua = Next \<and>
        (map_of r ''userAgent'' = Some (JStr ua) \<longrightarrow> stageC r = Next)"
    using 1 4 5 by auto
  show ?thesis
    by (rule conjI [OF 1 conjI [OF 2 conjI [OF 3 6]]])
qed

text \<open>C10 at three user agents in which the patterns occur in the middle.\<close>

theorem regex_entries_unanchored_witness:
  "userAgentSwitch ''xx aws-interna yy'' = Next \<and>
   userAgentSwitch ''eu-west-1.console.aws.amazonaws.com/s3'' = Next \<and>
   stageC [(''userAgent'', JStr ''eu-west-1.signin.aws.amazonaws.com'')] = Next"
proof -
  have a: "Contains ''xx aws-interna yy'' ''aws-interna''" by code_simp
  have b: "matchString ''console.*.amazonaws.com'' ''eu-west-1.console.aws.amazonaws.com/s3''"
    by code_simp
  have c: "matchString ''signin.*.amazonaws.com'' ''eu-west-1.signin.aws.amazonaws.com''"
    by code_simp
  have d: "map_of [(''userAgent'', JStr ''eu-west-1.signin.aws.amazonaws.com'')] ''userAgent''
      = Some (JStr ''eu-west-1.signin.aws.amazonaws.com'')"
    by simp
  from regex_entries_unanchored [of "''xx aws-interna yy''" "[]"] a
  have 1: "userAgentSwitch ''xx aws-interna yy'' = Next" by blast
  from regex_entries_unanchored [of "''eu-west-1.console.aws.amazonaws.com/s3''" "[]"] b
  have 2: "userAgentSwitch ''eu-west-1.console.aws.amazonaws.com/s3'' = Next" by blast
  from regex_entries_unanchored [of "''eu-west-1.signin.aws.amazonaws.com''"
      "[(''userAgent'', JStr ''eu-west-1.signin.aws.amazonaws.com'')]"] c d
  have 3: "stageC [(''userAgent'', JStr ''eu-west-1.signin.aws.amazonaws.com'')] = Next"
    by blast
  from 1 2 3 show ?thesis by simp
qed

text \<open>
  C10 as stated fails where the dot would have to stand for a newline: "console", a
  newline, "amazonaws", a dot and "com" is not matched, and the user agent is
  suppressed.
\<close>

theorem dot_excludes_newline:
  "matchString ''console.*.amazonaws.com''
     (''console'' @ [CHR 0x0A] @ ''amazonaws'' @ ''.'' @ ''com'') = False \<and>
   userAgentSwitch (''console'' @ [CHR 0x0A] @ ''amazonaws'' @ ''.'' @ ''com'') = Continue"
  by code_simp

end
